theory Spec2Isabelle
  imports Complex_Main
begin

section \<open>Data model and the array primitives the engine is built on\<close>

text \<open>
  Timestamps are \<open>datetime64[s]\<close> values, modelled as whole seconds (\<open>int\<close>); a
  \<open>timedelta\<close> is a whole number of seconds. Capacities are floating-point numbers in
  the source; the values a series holds are modelled as \<open>real\<close> (finite numbers), and
  rounding is outside the model. NaN and the infinities appear where the source tests
  for them, in the prediction step. Every exception the source or the array library
  raises is a value \<open>Inl e\<close>.
\<close>

datatype py_error = ValueError | IndexError | ZeroDivisionError | OverflowError

record CapacitySeries =
  time :: "int list"
  capacity :: "real list"

text \<open>Python slicing \<open>xs[a:b]\<close>: a negative bound counts from the end, both are clipped.\<close>

definition slice_index :: "nat \<Rightarrow> int \<Rightarrow> nat" where
  "slice_index n i = (if i < 0 then nat (max 0 (int n + i)) else min n (nat i))"

definition py_slice :: "'a list \<Rightarrow> int \<Rightarrow> int \<Rightarrow> 'a list" where
  "py_slice xs a b =
     (let lo = slice_index (length xs) a; hi = slice_index (length xs) b
      in take (hi - lo) (drop lo xs))"

text \<open>
  The position a Python index denotes in a sequence of \<open>n\<close> items (a negative index
  counts from the end), and indexing \<open>xs[i]\<close>, which raises IndexError when that
  position is not one of the sequence.
\<close>

definition norm_index :: "nat \<Rightarrow> int \<Rightarrow> int" where
  "norm_index n i = (if i < 0 then i + int n else i)"

definition py_index :: "'a list \<Rightarrow> int \<Rightarrow> py_error + 'a" where
  "py_index xs i =
     (if norm_index (length xs) i < 0 \<or> int (length xs) \<le> norm_index (length xs) i
      then Inl IndexError
      else Inr (xs ! nat (norm_index (length xs) i)))"

text \<open>
  \<open>int(a / b)\<close> on floats: the quotient with its fractional part dropped. A zero divisor
  raises in the source; every function below tests for it before it divides.
\<close>

definition trunc_div :: "int \<Rightarrow> int \<Rightarrow> int" where
  "trunc_div a b = (if (a < 0) = (b < 0) then \<bar>a\<bar> div \<bar>b\<bar> else - (\<bar>a\<bar> div \<bar>b\<bar>))"

text \<open>\<open>numpy.diff\<close>: one pass is \<open>a[1:] - a[:-1]\<close>; \<open>n=2\<close> is two passes.\<close>

definition diff1 :: "real list \<Rightarrow> real list" where
  "diff1 xs = map2 (\<lambda>a b. a - b) (tl xs) (butlast xs)"

definition diff2 :: "real list \<Rightarrow> real list" where
  "diff2 xs = diff1 (diff1 xs)"

text \<open>
  \<open>numpy.pad(a, (1, 1), mode="edge")\<close>: an empty axis cannot be extended in this mode,
  the library raises ValueError.
\<close>

definition pad_edge :: "real list \<Rightarrow> py_error + real list" where
  "pad_edge xs = (if xs = [] then Inl ValueError else Inr (hd xs # xs @ [last xs]))"

subsection \<open>CapacitySeries.acceleration\<close>

definition acceleration :: "CapacitySeries \<Rightarrow> py_error + real list" where
  "acceleration s = pad_edge (diff2 (capacity s))"

subsection \<open>run_similarity: cosine similarity and prediction\<close>

text \<open>\<open>numpy.dot\<close> of two vectors raises ValueError when their lengths differ.\<close>

definition dot :: "real list \<Rightarrow> real list \<Rightarrow> py_error + real" where
  "dot xs ys =
     (if length xs \<noteq> length ys then Inl ValueError
      else Inr (sum_list (map2 (\<lambda>a b. a * b) xs ys)))"

text \<open>\<open>numpy.linalg.norm\<close> of a vector: the Euclidean norm.\<close>

definition norm_l2 :: "real list \<Rightarrow> real" where
  "norm_l2 xs = sqrt (sum_list (map (\<lambda>a. a * a) xs))"

definition compute_cosine_similarity :: "CapacitySeries \<Rightarrow> CapacitySeries \<Rightarrow> py_error + real" where
  "compute_cosine_similarity series_m series_n =
     (case acceleration series_m of Inl e \<Rightarrow> Inl e | Inr accel_m0 \<Rightarrow>
     (case acceleration series_n of Inl e \<Rightarrow> Inl e | Inr accel_n0 \<Rightarrow>
        (let min_len = min (length accel_m0) (length accel_n0);
             accel_m = take min_len accel_m0;
             accel_n = take min_len accel_n0
         in (case dot accel_m accel_n of Inl e \<Rightarrow> Inl e | Inr dot_product \<Rightarrow>
               Inr (dot_product / (norm_l2 accel_m * norm_l2 accel_n + 1 / 10 ^ 9))))))"

text \<open>\<open>numpy.clip(x, lo, hi)\<close> is \<open>minimum(maximum(x, lo), hi)\<close>.\<close>

definition clip :: "real \<Rightarrow> real \<Rightarrow> real \<Rightarrow> real" where
  "clip x lo hi = min (max x lo) hi"

text \<open>Item assignment \<open>xs[i] = v\<close>, with the index rule of \<open>py_index\<close>.\<close>

definition py_store :: "'a list \<Rightarrow> int \<Rightarrow> 'a \<Rightarrow> py_error + 'a list" where
  "py_store xs i v =
     (if norm_index (length xs) i < 0 \<or> int (length xs) \<le> norm_index (length xs) i
      then Inl IndexError
      else Inr (xs[nat (norm_index (length xs) i) := v]))"

text \<open>
  The intermediate values of the prediction step can leave the range of the doubles, and
  the source tests for that. An intermediate value is a finite number, an infinity or NaN;
  an operation on finite operands whose exact result has magnitude \<open>2 ^ 1024 - 2 ^ 970\<close>
  or more (the largest double plus half a unit in its last place) rounds to an infinity.
  Products and sums with an infinity or NaN follow IEEE 754.
\<close>

datatype fval = Finite real | PosInf | NegInf | NaN

definition double_limit :: real where
  "double_limit = 2 ^ 1024 - 2 ^ 970"

definition to_fval :: "real \<Rightarrow> fval" where
  "to_fval x = (if double_limit \<le> x then PosInf
                else if x \<le> - double_limit then NegInf
                else Finite x)"

fun fmul :: "fval \<Rightarrow> fval \<Rightarrow> fval" where
  "fmul (Finite a) (Finite b) = to_fval (a * b)"
| "fmul NaN y = NaN"
| "fmul x NaN = NaN"
| "fmul (Finite a) y = (if a = 0 then NaN else if (0 < a) = (y = PosInf) then PosInf else NegInf)"
| "fmul x (Finite b) = (if b = 0 then NaN else if (0 < b) = (x = PosInf) then PosInf else NegInf)"
| "fmul x y = (if x = y then PosInf else NegInf)"

fun fadd :: "fval \<Rightarrow> fval \<Rightarrow> fval" where
  "fadd (Finite a) (Finite b) = to_fval (a + b)"
| "fadd NaN y = NaN"
| "fadd x NaN = NaN"
| "fadd (Finite a) y = y"
| "fadd x (Finite b) = x"
| "fadd x y = (if x = y then x else NaN)"

text \<open>
  One pass of the prediction loop for the index \<open>t\<close>: \<open>dc_m\<close> is the donor's step,
  \<open>dc_p = 2.0 * dc_m * similarity_coeff ** 2\<close> is evaluated from the left, and a
  \<open>predicted_capacity\<close> that is NaN or infinite is replaced by 0 before it is clipped and
  stored.
\<close>

definition predict_step :: "real list \<Rightarrow> real \<Rightarrow> real list \<Rightarrow> int \<Rightarrow> py_error + real list" where
  "predict_step m_capacity similarity_coeff p_capacity t =
     (case py_index m_capacity (t + 1) of Inl e \<Rightarrow> Inl e | Inr m1 \<Rightarrow>
     (case py_index m_capacity t of Inl e \<Rightarrow> Inl e | Inr m0 \<Rightarrow>
        (let dc_m = to_fval (m1 - m0);
             dc_p = fmul (fmul (Finite 2) dc_m) (to_fval (similarity_coeff ^ 2))
         in (case py_index p_capacity t of Inl e \<Rightarrow> Inl e | Inr p0 \<Rightarrow>
              (let predicted_capacity = fadd (Finite p0) dc_p;
                   checked = (case predicted_capacity of Finite x \<Rightarrow> x | PosInf \<Rightarrow> 0
                              | NegInf \<Rightarrow> 0 | NaN \<Rightarrow> 0)
               in py_store p_capacity (t + 1) (clip checked (- (10 ^ 9)) (10 ^ 9)))))))"

fun predict_loop :: "real list \<Rightarrow> real \<Rightarrow> int list \<Rightarrow> real list \<Rightarrow> py_error + real list" where
  "predict_loop m_capacity similarity_coeff [] p_capacity = Inr p_capacity"
| "predict_loop m_capacity similarity_coeff (t # ts) p_capacity =
     (case predict_step m_capacity similarity_coeff p_capacity t of
        Inl e \<Rightarrow> Inl e
      | Inr p' \<Rightarrow> predict_loop m_capacity similarity_coeff ts p')"

text \<open>\<open>range(midpoint - 1, len - 1)\<close> is the list \<open>[midpoint - 1 .. len - 2]\<close>.\<close>

definition predict_capacity_series ::
    "CapacitySeries \<Rightarrow> CapacitySeries \<Rightarrow> real \<Rightarrow> py_error + CapacitySeries" where
  "predict_capacity_series series_m series_n similarity_coeff =
     (let n = length (capacity series_n);
          midpoint = n div 2;
          zeroed = take midpoint (capacity series_n) @ replicate (n - midpoint) 0;
          coeff = clip similarity_coeff (- 1) 1
      in (case predict_loop (capacity series_m) coeff [int midpoint - 1 .. int n - 2] zeroed of
            Inl e \<Rightarrow> Inl e
          | Inr p \<Rightarrow> Inr (series_n\<lparr>capacity := p\<rparr>)))"

subsection \<open>run_correlations: bounded-shift matching\<close>







subsection \<open>es_explorer: peak detection\<close>

record AccelerationPeaks =
  minima :: "(int \<times> real) list"
  maxima :: "(int \<times> real) list"

text \<open>
  \<open>scipy.signal.argrelextrema(data, comparator, order)\<close> with its default mode
  \<open>clip\<close>: an order below 1 raises ValueError; index \<open>i\<close> is kept when the comparator
  holds between \<open>data[i]\<close> and both neighbours at every distance \<open>1..order\<close>, a
  neighbour index outside the array being clipped to its first or last position.
\<close>

definition clip_index :: "nat \<Rightarrow> int \<Rightarrow> nat" where
  "clip_index n i = nat (max 0 (min (int n - 1) i))"

definition argrelextrema :: "real list \<Rightarrow> (real \<Rightarrow> real \<Rightarrow> bool) \<Rightarrow> int \<Rightarrow> py_error + nat list" where
  "argrelextrema data comparator order =
     (if order < 1 then Inl ValueError
      else Inr (filter
                 (\<lambda>i. \<forall>shift \<in> set [1 .. order].
                        comparator (data ! i) (data ! clip_index (length data) (int i + shift))
                      \<and> comparator (data ! i) (data ! clip_index (length data) (int i - shift)))
                 [0 ..< length data]))"

text \<open>
  \<open>numpy.percentile(a, q)\<close> with the default linear method: the sorted array is read at
  the virtual index \<open>(n - 1) \<cdot> q / 100\<close>, interpolating between the two neighbouring
  positions. It is only applied to non-empty windows below (on an empty list the value of
  this definition is unspecified).
\<close>

definition percentile :: "real list \<Rightarrow> real \<Rightarrow> real" where
  "percentile a q =
     (let sorted = sort a;
          n = length a;
          virtual_index = (real n - 1) * q / 100;
          previous_index = nat \<lfloor>virtual_index\<rfloor>;
          next_index = min (previous_index + 1) (n - 1);
          gamma = virtual_index - real previous_index
      in sorted ! previous_index + (sorted ! next_index - sorted ! previous_index) * gamma)"

text \<open>The helper \<open>get_peaks(indices, percentile_target)\<close>; \<open>tm\<close> is \<open>capacity_series.time\<close>.\<close>

fun get_peaks :: "int list \<Rightarrow> real list \<Rightarrow> int \<Rightarrow> nat list \<Rightarrow> real \<Rightarrow> py_error + (int \<times> real) list" where
  "get_peaks tm accel t_width [] percentile_target = Inr []"
| "get_peaks tm accel t_width (n # indices) percentile_target =
     (let start_i = max 0 (int n - t_width);
          end_i = min (int (length accel)) (int n + t_width);
          peak_val = percentile (py_slice accel start_i end_i) percentile_target
      in (case py_index tm (int n) of Inl e \<Rightarrow> Inl e | Inr peak_time \<Rightarrow>
         (case get_peaks tm accel t_width indices percentile_target of Inl e \<Rightarrow> Inl e
          | Inr rest \<Rightarrow> Inr ((peak_time, peak_val) # rest))))"

text \<open>
  \<open>sigma.total_seconds() / t_interval\<close> is a division of Python floats: a zero interval
  raises ZeroDivisionError.
\<close>

definition find_acceleration_peaks :: "CapacitySeries \<Rightarrow> int \<Rightarrow> py_error + AccelerationPeaks" where
  "find_acceleration_peaks capacity_series sigma =
     (case py_index (time capacity_series) 1 of Inl e \<Rightarrow> Inl e | Inr t1 \<Rightarrow>
     (case py_index (time capacity_series) 0 of Inl e \<Rightarrow> Inl e | Inr t0 \<Rightarrow>
       (let t_interval = t1 - t0
        in if t_interval = 0 then Inl ZeroDivisionError
           else (let t_width = 3 * trunc_div sigma t_interval
                 in (case acceleration capacity_series of Inl e \<Rightarrow> Inl e | Inr accel \<Rightarrow>
                    (case argrelextrema accel (\<lambda>a b. b < a) t_width of Inl e \<Rightarrow> Inl e
                     | Inr max_indices \<Rightarrow>
                    (case argrelextrema accel (\<lambda>a b. a < b) t_width of Inl e \<Rightarrow> Inl e
                     | Inr min_indices \<Rightarrow>
                    (case get_peaks (time capacity_series) accel t_width max_indices 95 of
                       Inl e \<Rightarrow> Inl e
                     | Inr maxima_v \<Rightarrow>
                    (case get_peaks (time capacity_series) accel t_width min_indices 5 of
                       Inl e \<Rightarrow> Inl e
                     | Inr minima_v \<Rightarrow> Inr \<lparr>minima = minima_v, maxima = maxima_v\<rparr>)))))))))"

subsection \<open>AccelerationPeaks: max, min and frequency\<close>






subsection \<open>CapacitySeries.smooth\<close>

text \<open>
  \<open>numpy.interp(x, xp, fp)\<close> for increasing sample points \<open>xp\<close>: below the first point
  the first value, from the last point on the last value, in between the line through the
  two neighbouring samples. An empty \<open>xp\<close>, or an \<open>fp\<close> of another length, raises
  ValueError.
\<close>

fun interp_at :: "real \<Rightarrow> real list \<Rightarrow> real list \<Rightarrow> real" where
  "interp_at x (x0 # x1 # xp) (f0 # f1 # fp) =
     (if x < x1
      then (if x \<le> x0 then f0 else (f1 - f0) / (x1 - x0) * (x - x0) + f0)
      else interp_at x (x1 # xp) (f1 # fp))"
| "interp_at x [x0] (f0 # fp) = f0"
| "interp_at x xp fp = 0"

definition interp :: "real list \<Rightarrow> real list \<Rightarrow> real list \<Rightarrow> py_error + real list" where
  "interp x xp fp =
     (if xp = [] then Inl ValueError
      else if length fp \<noteq> length xp then Inl ValueError
      else Inr (map (\<lambda>v. interp_at v xp fp) x))"

text \<open>
  The kernel: \<open>arange(-r\<cdot>delta, (r + 1)\<cdot>delta, delta)\<close> has \<open>2r + 1\<close> entries (none when
  that is not positive), the weights are \<open>exp(-0.5 \<cdot> (k / sigma)\<^sup>2)\<close> divided by their sum.
  (For \<open>sigma = 0\<close> the source's weights are NaN; a quotient by zero is 0 in HOL.)
\<close>

definition gaussian_kernel :: "int \<Rightarrow> int \<Rightarrow> int \<Rightarrow> real list" where
  "gaussian_kernel kernel_radius delta sigma =
     (let kernel_range = map (\<lambda>i. real_of_int (- kernel_radius * delta + int i * delta))
                           [0 ..< nat (2 * kernel_radius + 1)];
          kern = map (\<lambda>k. exp (- (1 / 2) * (k / real_of_int sigma) ^ 2)) kernel_range
      in map (\<lambda>k. k / sum_list kern) kern)"

text \<open>
  \<open>numpy.convolve(a, v, mode="same")\<close>: the two arguments are swapped when \<open>v\<close> is the
  longer one, an empty argument raises ValueError, and the result is the centred part, as
  long as the longer argument, of the full convolution: it starts at position
  \<open>(n2 - 1) div 2\<close> of the full convolution, \<open>n2\<close> the length of the shorter argument.
\<close>

definition convolve_full :: "real list \<Rightarrow> real list \<Rightarrow> real list" where
  "convolve_full a v =
     map (\<lambda>k. sum_list (map (\<lambda>j. if j \<le> k \<and> k - j < length v then a ! j * v ! (k - j) else 0)
                           [0 ..< length a]))
       [0 ..< length a + length v - 1]"

definition convolve_same :: "real list \<Rightarrow> real list \<Rightarrow> py_error + real list" where
  "convolve_same a v =
     (if a = [] \<or> v = [] then Inl ValueError
      else (let a1 = (if length a < length v then v else a);
                v1 = (if length a < length v then a else v)
            in Inr (take (length a1) (drop ((length v1 - 1) div 2) (convolve_full a1 v1)))))"

text \<open>
  \<open>smooth\<close> assigns the new arrays at its very end: a raised exception leaves the series
  as it was, a normal return is the updated series. \<open>grid_size\<close> (the source's
  \<open>size_\<close>) is the truncated quotient of two second counts; for a zero \<open>delta\<close> the
  float quotient is infinite or NaN and its conversion by \<open>int\<close> raises. \<open>end_t\<close> is the
  source's parameter \<open>end\<close>.
\<close>

definition smooth :: "CapacitySeries \<Rightarrow> int \<Rightarrow> int \<Rightarrow> int \<Rightarrow> int \<Rightarrow> py_error + CapacitySeries" where
  "smooth s start end_t delta sigma =
     (if delta = 0 then Inl (if end_t = start then ValueError else OverflowError)
      else (let grid_size = trunc_div (end_t - start) delta;
                new_times = map (\<lambda>i. start + int i * delta) [0 ..< nat grid_size]
            in (case interp (map real_of_int new_times) (map real_of_int (time s)) (capacity s) of
                  Inl e \<Rightarrow> Inl e
                | Inr interpolated_capacity \<Rightarrow>
                 (let kernel_radius = trunc_div (3 * sigma) delta;
                      kern = gaussian_kernel kernel_radius delta sigma
                  in (case convolve_same interpolated_capacity kern of
                        Inl e \<Rightarrow> Inl e
                      | Inr smoothed_capacity \<Rightarrow>
                         (let trimmed_times = py_slice new_times kernel_radius (- kernel_radius);
                              trimmed_capacity = py_slice smoothed_capacity kernel_radius (- kernel_radius)
                          in Inr \<lparr>time = trimmed_times,
                                  capacity = map (\<lambda>c. if c < 0 then 0 else c) trimmed_capacity\<rparr>))))))"

section \<open>Acceleration\<close>

lemma length_diff1: "length (diff1 xs) = length xs - 1"
  by (simp add: diff1_def)

lemma length_diff2: "length (diff2 xs) = length xs - 2"
  by (simp add: diff2_def length_diff1)

lemma diff2_empty_iff: "diff2 xs = [] \<longleftrightarrow> length xs \<le> 2"
proof -
  have "diff2 xs = [] \<longleftrightarrow> length (diff2 xs) = 0" by simp
  also have "\<dots> \<longleftrightarrow> length xs \<le> 2" by (simp add: length_diff2)
  finally show ?thesis .
qed

lemma acceleration_short: "length (capacity s) \<le> 2 \<Longrightarrow> acceleration s = Inl ValueError"
  by (simp add: acceleration_def pad_edge_def diff2_empty_iff)

lemma acceleration_long:
  assumes "3 \<le> length (capacity s)"
  shows "\<exists>acc. acceleration s = Inr acc \<and> length acc = length (capacity s)"
proof -
  from assms have ne: "diff2 (capacity s) \<noteq> []" by (simp add: diff2_empty_iff)
  then have "acceleration s = Inr (hd (diff2 (capacity s)) # diff2 (capacity s) @ [last (diff2 (capacity s))])"
    by (simp add: acceleration_def pad_edge_def)
  moreover have "length (hd (diff2 (capacity s)) # diff2 (capacity s) @ [last (diff2 (capacity s))]) = length (capacity s)"
    using assms by (simp add: length_diff2)
  ultimately show ?thesis by blast
qed

text \<open>
  C3. The accessor is specified to return an array as long as \<open>capacity\<close> for every
  series, also for series of length 0, 1 or 2. On a two-sample series the second
  difference is empty and the edge padding raises ValueError: no array is returned.
\<close>

theorem acceleration_two_samples_raises:
  "acceleration \<lparr>time = [0, 1], capacity = [1, 2]\<rparr> = Inl ValueError"
  by (simp add: acceleration_def pad_edge_def diff2_def diff1_def)

section \<open>Cosine similarity\<close>

lemma acceleration_error: "acceleration s = Inl e \<Longrightarrow> e = ValueError"
  by (simp add: acceleration_def pad_edge_def split: if_splits)

lemma dot_commute: "dot xs ys = dot ys xs"
proof -
  have "map2 (\<lambda>a b. a * b) xs ys = map2 (\<lambda>a b. a * b) ys xs" for xs ys :: "real list"
    by (induction xs ys rule: list_induct2') (simp_all add: mult.commute)
  then show ?thesis by (simp add: dot_def)
qed

text \<open>
  C10. \<open>compute_cosine_similarity\<close> is symmetric in its two series: both accelerations
  are cut to the common shorter length, the products under the sum and the product of the
  two norms commute, and when an acceleration cannot be computed either order raises the
  same ValueError.
\<close>

theorem compute_cosine_similarity_symmetric:
  "compute_cosine_similarity a b = compute_cosine_similarity b a"
proof (cases "acceleration a")
  case (Inl e)
  then have e: "e = ValueError" by (rule acceleration_error)
  show ?thesis
  proof (cases "acceleration b")
    case (Inl e')
    then have "e' = ValueError" by (rule acceleration_error)
    with e Inl \<open>acceleration a = Inl e\<close> show ?thesis
      by (simp add: compute_cosine_similarity_def)
  next
    case (Inr bb)
    with Inl show ?thesis by (simp add: compute_cosine_similarity_def)
  qed
next
  case (Inr aa)
  show ?thesis
  proof (cases "acceleration b")
    case (Inl e')
    with Inr show ?thesis by (simp add: compute_cosine_similarity_def)
  next
    case Inr2: (Inr bb)
    define k where "k = min (length aa) (length bb)"
    have k1: "min (length aa) (length bb) = k" by (simp add: k_def)
    have k2: "min (length bb) (length aa) = k" by (simp add: k_def)
    have len: "length (take k aa) = length (take k bb)" by (simp add: k_def)
    have d1: "dot (take k aa) (take k bb) = Inr (sum_list (map2 (\<lambda>a b. a * b) (take k aa) (take k bb)))"
      using len by (simp add: dot_def)
    have d2: "dot (take k bb) (take k aa) = Inr (sum_list (map2 (\<lambda>a b. a * b) (take k aa) (take k bb)))"
      using d1 by (simp only: dot_commute [of "take k bb"])
    have "compute_cosine_similarity a b =
            Inr (sum_list (map2 (\<lambda>a b. a * b) (take k aa) (take k bb))
                 / (norm_l2 (take k aa) * norm_l2 (take k bb) + 1 / 10 ^ 9))"
      using Inr Inr2 by (simp add: compute_cosine_similarity_def Let_def k1 d1)
    moreover have "compute_cosine_similarity b a =
            Inr (sum_list (map2 (\<lambda>a b. a * b) (take k aa) (take k bb))
                 / (norm_l2 (take k bb) * norm_l2 (take k aa) + 1 / 10 ^ 9))"
      using Inr Inr2 by (simp add: compute_cosine_similarity_def Let_def k2 d2)
    ultimately show ?thesis by (simp add: mult.commute)
  qed
qed

lemma dot_self: "dot xs xs = Inr (sum_list (map (\<lambda>a. a * a) xs))"
proof -
  have "map2 (\<lambda>a b. a * b) xs xs = map (\<lambda>a. a * a) xs"
    by (induction xs) simp_all
  then show ?thesis by (simp add: dot_def)
qed

lemma sum_squares_nonneg: "0 \<le> sum_list (map (\<lambda>a. a * a) (xs :: real list))"
  by (induction xs) simp_all

lemma norm_l2_self: "norm_l2 xs * norm_l2 xs = sum_list (map (\<lambda>a. a * a) xs)"
  by (simp add: norm_l2_def sum_squares_nonneg)

lemma self_similarity_value:
  assumes "acceleration a = Inr acc"
  shows "compute_cosine_similarity a a =
           Inr (sum_list (map (\<lambda>x. x * x) acc) / (sum_list (map (\<lambda>x. x * x) acc) + 1 / 10 ^ 9))"
  using assms by (simp add: compute_cosine_similarity_def Let_def dot_self norm_l2_self)

text \<open>
  C8, as amended. For a series whose acceleration is defined (three samples or more) and
  has a squared Euclidean norm \<open>q\<close> with \<open>1e-3 \<le> q \<le> 1e300\<close>, the raw self similarity
  is within \<open>1e-6\<close> of 1. (The lower bound keeps the additive \<open>1e-9\<close> of the denominator
  small against \<open>q\<close>; the upper bound keeps the squares within the range of the doubles.)
\<close>

theorem self_similarity_amended:
  assumes "acceleration a = Inr acc"
    and "1 / 10 ^ 3 \<le> sum_list (map (\<lambda>x. x * x) acc)"
    and "sum_list (map (\<lambda>x. x * x) acc) \<le> 10 ^ 300"
  shows "\<exists>v. compute_cosine_similarity a a = Inr v \<and> \<bar>v - 1\<bar> \<le> 1 / 10 ^ 6"
proof -
  define q where "q = sum_list (map (\<lambda>x. x * x) acc)"
  let ?v = "q / (q + 1 / 10 ^ 9)"
  have val: "compute_cosine_similarity a a = Inr ?v"
    unfolding q_def by (rule self_similarity_value [OF assms(1)])
  have q3: "1 / 10 ^ 3 \<le> q" using assms(2) by (simp add: q_def)
  have pos: "0 < q + 1 / 10 ^ 9" using q3 by simp
  have v1: "?v < 1" using pos by (simp add: divide_simps)
  have diff: "1 - ?v = (1 / 10 ^ 9) / (q + 1 / 10 ^ 9)"
    using pos by (simp add: field_simps)
  have "\<bar>?v - 1\<bar> = 1 - ?v" using v1 by simp
  also have "\<dots> = (1 / 10 ^ 9) / (q + 1 / 10 ^ 9)" by (rule diff)
  also have "\<dots> \<le> 1 / 10 ^ 6" using pos q3 by (simp add: field_simps)
  finally have "\<bar>?v - 1\<bar> \<le> 1 / 10 ^ 6" .
  with val show ?thesis by blast
qed

lemma acc_ex1: "acceleration \<lparr>time = [0, 1, 2], capacity = [0, 0, 1]\<rparr> = Inr [1, 1, 1]"
  by (simp add: acceleration_def pad_edge_def diff2_def diff1_def)

theorem self_similarity_amended_witness:
  "map_sum id (\<lambda>v. \<bar>v - 1\<bar> \<le> 1 / 10 ^ 6)
     (compute_cosine_similarity \<lparr>time = [0, 1, 2], capacity = [0, 0, 1]\<rparr>
        \<lparr>time = [0, 1, 2], capacity = [0, 0, 1]\<rparr>) = Inr True"
proof -
  have lo: "1 / 10 ^ 3 \<le> sum_list (map (\<lambda>x. x * x) [1, 1, 1 :: real])" by simp
  have hi: "sum_list (map (\<lambda>x. x * x) [1, 1, 1 :: real]) \<le> 10 ^ 300" by simp
  from self_similarity_amended [OF acc_ex1 lo hi] show ?thesis by auto
qed

text \<open>
  C8 as stated fails: a series growing linearly has acceleration zero everywhere, and the
  additive epsilon in the denominator makes its self similarity 0, not 1.
\<close>

theorem self_similarity_zero_acceleration:
  "compute_cosine_similarity \<lparr>time = [0, 1, 2], capacity = [0, 1, 2]\<rparr>
     \<lparr>time = [0, 1, 2], capacity = [0, 1, 2]\<rparr> = Inr 0
   \<and> \<not> \<bar>(0::real) - 1\<bar> \<le> 1 / 10 ^ 6"
  by (simp add: compute_cosine_similarity_def acceleration_def pad_edge_def diff2_def diff1_def
      dot_def norm_l2_def)

section \<open>Prediction\<close>

lemma clip_idem: "lo \<le> hi \<Longrightarrow> clip (clip x lo hi) lo hi = clip x lo hi"
  by (simp add: clip_def min_def max_def)

lemma double_limit_large: "10 ^ 9 < double_limit"
  by (simp add: double_limit_def)

lemma to_fval_finite: "\<bar>x\<bar> < double_limit \<Longrightarrow> to_fval x = Finite x"
  by (simp add: to_fval_def abs_less_iff)

lemma clip_in_double_range: "\<bar>clip x (- (10 ^ 9)) (10 ^ 9)\<bar> < double_limit"
proof -
  have "\<bar>clip x (- (10 ^ 9)) (10 ^ 9)\<bar> \<le> 10 ^ 9"
    by (simp add: clip_def min_def max_def abs_le_iff)
  with double_limit_large show ?thesis by linarith
qed

lemma zero_coeff_step_value:
  assumes "\<bar>2 * (m1 - m0)\<bar> < double_limit" and "\<bar>p0\<bar> < double_limit"
  shows "fadd (Finite p0) (fmul (fmul (Finite 2) (to_fval (m1 - m0))) (to_fval 0)) = Finite p0"
proof -
  have pos: "0 < double_limit" by (simp add: double_limit_def)
  have d: "\<bar>m1 - m0\<bar> < double_limit" using assms(1) by (simp add: abs_mult)
  have "to_fval (m1 - m0) = Finite (m1 - m0)" using d by (rule to_fval_finite)
  moreover have "to_fval (2 * (m1 - m0)) = Finite (2 * (m1 - m0))"
    using assms(1) by (rule to_fval_finite)
  moreover have "to_fval (0::real) = Finite 0" using pos by (simp add: to_fval_def)
  moreover have "to_fval p0 = Finite p0" using assms(2) by (rule to_fval_finite)
  ultimately show ?thesis by simp
qed

lemma predict_step_zero:
  assumes "0 \<le> t" "t + 1 < int (length p)" "length p \<le> length L"
    and "\<bar>2 * (L ! nat (t + 1) - L ! nat t)\<bar> < double_limit"
    and "\<bar>p ! nat t\<bar> < double_limit"
  shows "predict_step L 0 p t = Inr (p[nat (t + 1) := clip (p ! nat t) (- (10 ^ 9)) (10 ^ 9)])"
proof -
  have m1: "py_index L (t + 1) = Inr (L ! nat (t + 1))"
    using assms(1-3) by (simp add: py_index_def norm_index_def)
  have m0: "py_index L t = Inr (L ! nat t)"
    using assms(1-3) by (simp add: py_index_def norm_index_def)
  have p0: "py_index p t = Inr (p ! nat t)"
    using assms(1-3) by (simp add: py_index_def norm_index_def)
  have st: "py_store p (t + 1) v = Inr (p[nat (t + 1) := v])" for v
    using assms(1-3) by (simp add: py_store_def norm_index_def)
  show ?thesis
    unfolding predict_step_def Let_def m1 m0 p0
    by (simp add: zero_coeff_step_value [OF assms(4,5)] st)
qed


lemma predict_loop_zero:
  assumes "0 \<le> i" "j + 1 < int (length p)" "length p \<le> length L"
    and "\<forall>t. i \<le> t \<and> t \<le> j \<longrightarrow> \<bar>2 * (L ! nat (t + 1) - L ! nat t)\<bar> < double_limit"
    and "\<bar>p ! nat i\<bar> < double_limit"
  shows "\<exists>p'. predict_loop L 0 [i..j] p = Inr p' \<and> length p' = length p
           \<and> (\<forall>k<length p. p' ! k = (if int k \<le> i \<or> j + 1 < int k then p ! k
                                        else clip (p ! nat i) (- (10 ^ 9)) (10 ^ 9)))"
  using assms
proof (induction "nat (j + 1 - i)" arbitrary: i p)
  case 0
  then have "[i..j] = []" by simp
  moreover have "\<forall>k<length p. int k \<le> i \<or> j + 1 < int k" using 0 by auto
  ultimately show ?case by simp
next
  case (Suc n)
  then have ij: "i \<le> j" by simp
  then have up: "[i..j] = i # [i + 1..j]" by (simp add: upto_rec1)
  let ?c = "clip (p ! nat i) (- (10 ^ 9)) (10 ^ 9)"
  let ?p1 = "p[nat (i + 1) := ?c]"
  have inb: "nat (i + 1) < length p" using Suc.prems ij by simp
  have at: "?p1 ! nat (i + 1) = ?c" using inb by simp
  have step: "predict_step L 0 p i = Inr ?p1"
    using Suc.prems ij by (intro predict_step_zero) simp_all
  have n: "n = nat (j + 1 - (i + 1))" using Suc.hyps(2) by simp
  have rng: "\<bar>?p1 ! nat (i + 1)\<bar> < double_limit"
    unfolding at by (rule clip_in_double_range)
  have "\<exists>p'. predict_loop L 0 [i + 1..j] ?p1 = Inr p' \<and> length p' = length ?p1
           \<and> (\<forall>k<length ?p1. p' ! k = (if int k \<le> i + 1 \<or> j + 1 < int k then ?p1 ! k
                                        else clip (?p1 ! nat (i + 1)) (- (10 ^ 9)) (10 ^ 9)))"
    using Suc.prems(1-4) rng by (intro Suc.hyps(1) [OF n]) simp_all
  then obtain p' where run: "predict_loop L 0 [i + 1..j] ?p1 = Inr p'"
    and len: "length p' = length p"
    and vals: "\<And>k. k < length p \<Longrightarrow> p' ! k = (if int k \<le> i + 1 \<or> j + 1 < int k then ?p1 ! k
                                        else clip (?p1 ! nat (i + 1)) (- (10 ^ 9)) (10 ^ 9))"
    by auto
  have cc: "clip ?c (- (10 ^ 9)) (10 ^ 9) = ?c" by (rule clip_idem) simp
  have "p' ! k = (if int k \<le> i \<or> j + 1 < int k then p ! k else ?c)" if k: "k < length p" for k
  proof (cases "int k = i + 1")
    case True
    then have "k = nat (i + 1)" by simp
    with vals [OF k] True at ij show ?thesis by simp
  next
    case False
    then have "k \<noteq> nat (i + 1)" using Suc.prems(1) by auto
    then have "?p1 ! k = p ! k" by simp
    with vals [OF k] False at cc show ?thesis by auto
  qed
  with run len up step show ?case by simp
qed

text \<open>
  C9, as amended. With coefficient 0, a target of at least two samples whose last value
  before the midpoint is in the range of the doubles, and a donor at least as long as the
  target whose steps \<open>capacity[t+1] - capacity[t]\<close> from \<open>t = midpoint - 1\<close> on stay, once
  doubled, below the overflow threshold of the doubles: the prediction returns a series
  with the target's time, the target's capacity before the midpoint, and from the midpoint
  on the last value before the midpoint clipped to \<open>[-1e9, 1e9]\<close> (that value itself when
  it lies within the bounds).
\<close>

theorem predict_zero_coeff_tail:
  assumes "2 \<le> length (capacity series_n)"
    and "length (capacity series_n) \<le> length (capacity series_m)"
    and "\<forall>t \<in> set [length (capacity series_n) div 2 - 1 ..< length (capacity series_n) - 1].
           \<bar>2 * (capacity series_m ! (t + 1) - capacity series_m ! t)\<bar> < double_limit"
    and "\<bar>capacity series_n ! (length (capacity series_n) div 2 - 1)\<bar> < double_limit"
  shows "\<exists>p. predict_capacity_series series_m series_n 0 = Inr p
           \<and> time p = time series_n
           \<and> length (capacity p) = length (capacity series_n)
           \<and> (\<forall>k<length (capacity series_n).
                 capacity p ! k =
                   (if k < length (capacity series_n) div 2 then capacity series_n ! k
                    else clip (capacity series_n ! (length (capacity series_n) div 2 - 1))
                           (- (10 ^ 9)) (10 ^ 9)))"
proof -
  define n where "n = length (capacity series_n)"
  define mid where "mid = n div 2"
  define z where "z = take mid (capacity series_n) @ replicate (n - mid) (0::real)"
  have mid1: "1 \<le> mid" and midn: "mid < n" using assms(1) by (simp_all add: mid_def n_def)
  have lz: "length z = n" using midn by (simp add: z_def n_def)
  have zlow: "z ! k = capacity series_n ! k" if "k < mid" for k
    using that midn by (simp add: z_def nth_append n_def)
  have c0: "clip 0 (- 1) 1 = 0" by (simp add: clip_def)
  have zm: "z ! nat (int mid - 1) = capacity series_n ! (mid - 1)"
  proof -
    have "nat (int mid - 1) = mid - 1" by simp
    moreover have "mid - 1 < mid" using mid1 by simp
    ultimately show ?thesis using zlow by simp
  qed
  have steps: "\<forall>t. int mid - 1 \<le> t \<and> t \<le> int n - 2
                 \<longrightarrow> \<bar>2 * (capacity series_m ! nat (t + 1) - capacity series_m ! nat t)\<bar> < double_limit"
  proof (intro allI impI)
    fix t :: int
    assume t: "int mid - 1 \<le> t \<and> t \<le> int n - 2"
    then have "nat t \<in> set [mid - 1 ..< n - 1]" using mid1 by auto
    with assms(3) have "\<bar>2 * (capacity series_m ! (nat t + 1) - capacity series_m ! nat t)\<bar> < double_limit"
      by (simp add: n_def mid_def)
    moreover have "0 \<le> t" using t mid1 by linarith
    then have "nat (t + 1) = nat t + 1" by simp
    ultimately show "\<bar>2 * (capacity series_m ! nat (t + 1) - capacity series_m ! nat t)\<bar> < double_limit"
      by simp
  qed
  have start: "\<bar>z ! nat (int mid - 1)\<bar> < double_limit"
    unfolding zm using assms(4) by (simp add: n_def mid_def)
  have "\<exists>p'. predict_loop (capacity series_m) 0 [int mid - 1..int n - 2] z = Inr p' \<and> length p' = length z
           \<and> (\<forall>k<length z. p' ! k = (if int k \<le> int mid - 1 \<or> int n - 2 + 1 < int k then z ! k
                                        else clip (z ! nat (int mid - 1)) (- (10 ^ 9)) (10 ^ 9)))"
    using mid1 lz assms(2) steps start by (intro predict_loop_zero) (simp_all add: n_def)
  then obtain p' where run: "predict_loop (capacity series_m) 0 [int mid - 1..int n - 2] z = Inr p'"
    and len: "length p' = n"
    and vals: "\<And>k. k < n \<Longrightarrow> p' ! k = (if int k \<le> int mid - 1 \<or> int n - 2 + 1 < int k then z ! k
                                        else clip (z ! nat (int mid - 1)) (- (10 ^ 9)) (10 ^ 9))"
    using lz by auto
  have res: "predict_capacity_series series_m series_n 0 = Inr (series_n\<lparr>capacity := p'\<rparr>)"
    using run by (simp add: predict_capacity_series_def Let_def c0 n_def [symmetric] mid_def [symmetric] z_def [symmetric])
  have "p' ! k = (if k < mid then capacity series_n ! k
                  else clip (capacity series_n ! (mid - 1)) (- (10 ^ 9)) (10 ^ 9))" if k: "k < n" for k
  proof (cases "k < mid")
    case True
    then have "int k \<le> int mid - 1" by simp
    with vals [OF k] zlow [OF True] True show ?thesis by simp
  next
    case False
    then have "\<not> int k \<le> int mid - 1" "\<not> int n - 2 + 1 < int k" using k by simp_all
    with vals [OF k] zm False show ?thesis by simp
  qed
  with res len show ?thesis by (simp add: n_def mid_def)
qed

theorem predict_zero_coeff_tail_witness:
  "map_sum id capacity
        (predict_capacity_series \<lparr>time = [0, 1, 2, 3], capacity = [0, 1, 3, 6]\<rparr>
           \<lparr>time = [0, 1, 2, 3], capacity = [4, 5, 7, 9]\<rparr> 0)
       = Inr [4, 5, 5, 5]"
proof -
  let ?m = "\<lparr>time = [0, 1, 2, 3], capacity = [0, 1, 3, 6]\<rparr>"
  let ?n = "\<lparr>time = [0, 1, 2, 3], capacity = [4, 5, 7, 9]\<rparr>"
  have h1: "2 \<le> length (capacity ?n)" by simp
  have h2: "length (capacity ?n) \<le> length (capacity ?m)" by simp
  have h3: "\<forall>t \<in> set [length (capacity ?n) div 2 - 1 ..< length (capacity ?n) - 1].
           \<bar>2 * (capacity ?m ! (t + 1) - capacity ?m ! t)\<bar> < double_limit"
    by (simp add: double_limit_def upt_rec)
  have h4: "\<bar>capacity ?n ! (length (capacity ?n) div 2 - 1)\<bar> < double_limit"
    by (simp add: double_limit_def)
  from predict_zero_coeff_tail [OF h1 h2 h3 h4] obtain p where
    r: "predict_capacity_series ?m ?n 0 = Inr p"
    and l: "length (capacity p) = length (capacity ?n)"
    and v: "\<forall>k<length (capacity ?n). capacity p ! k =
                   (if k < length (capacity ?n) div 2 then capacity ?n ! k
                    else clip (capacity ?n ! (length (capacity ?n) div 2 - 1))
                           (- (10 ^ 9)) (10 ^ 9))"
    by blast
  have l4: "length (capacity p) = 4" using l by simp
  have "capacity p ! k = [4, 5, 5, 5] ! k" if "k < 4" for k
  proof -
    from that have "k = 0 \<or> k = 1 \<or> k = 2 \<or> k = 3" by auto
    then show ?thesis using v by (auto simp add: clip_def)
  qed
  with l4 have "capacity p = [4, 5, 5, 5]" by (simp add: list_eq_iff_nth_eq)
  with r show ?thesis by simp
qed

text \<open>
  C9 as stated fails: every stored value goes through \<open>clip(\<dots>, -1e9, 1e9)\<close>, so a last
  value before the midpoint of \<open>2e9\<close> is continued by \<open>1e9\<close>; a donor shorter than the
  target is read past its end, which raises IndexError; and a donor step that overflows
  (\<open>-1e308 - 1e308\<close>) makes the product with the zero coefficient NaN, which is replaced
  by 0.
\<close>

theorem predict_zero_coeff_clipped:
  "map_sum id capacity
     (predict_capacity_series \<lparr>time = [0, 1], capacity = [0, 0]\<rparr>
        \<lparr>time = [0, 1], capacity = [2 * 10 ^ 9, 5]\<rparr> 0)
   = Inr [2 * 10 ^ 9, 10 ^ 9]
   \<and> predict_capacity_series \<lparr>time = [0], capacity = [0]\<rparr>
        \<lparr>time = [0, 1], capacity = [1, 2]\<rparr> 0 = Inl IndexError
   \<and> map_sum id capacity
     (predict_capacity_series \<lparr>time = [0, 1], capacity = [10 ^ 308, - (10 ^ 308)]\<rparr>
        \<lparr>time = [0, 1], capacity = [5, 7]\<rparr> 0)
   = Inr [5, 0]"
  by (simp add: predict_capacity_series_def predict_step_def py_index_def py_store_def
      norm_index_def clip_def upto_rec1 Let_def to_fval_def double_limit_def)

section \<open>Correlation matching\<close>


















section \<open>Peak detection\<close>

lemma py_slice_window:
  assumes "0 \<le> w"
  shows "py_slice xs (max 0 (int n - w)) (min (int (length xs)) (int n + w))
         = take (min (length xs) (n + nat w) - (n - nat w)) (drop (n - nat w) xs)"
proof -
  have a: "slice_index (length xs) (max 0 (int n - w)) = min (length xs) (n - nat w)"
    using assms unfolding slice_index_def by (auto simp add: max_def min_def)
  have b: "slice_index (length xs) (min (int (length xs)) (int n + w)) = min (length xs) (n + nat w)"
    using assms unfolding slice_index_def by (auto simp add: min_def)
  have "py_slice xs (max 0 (int n - w)) (min (int (length xs)) (int n + w))
        = take (min (length xs) (n + nat w) - min (length xs) (n - nat w))
            (drop (min (length xs) (n - nat w)) xs)"
    by (simp only: py_slice_def Let_def a b)
  also have "\<dots> = take (min (length xs) (n + nat w) - (n - nat w)) (drop (n - nat w) xs)"
  proof (cases "n - nat w \<le> length xs")
    case True
    then show ?thesis by (simp add: min_absorb2)
  next
    case False
    then show ?thesis by simp
  qed
  finally show ?thesis .
qed

lemma py_index_nat: "py_index xs (int n) = Inr t \<Longrightarrow> n < length xs \<and> t = xs ! n"
  by (simp add: py_index_def norm_index_def split: if_splits)

lemma get_peaks_map:
  assumes "get_peaks tm accel w ns q = Inr r" and "0 \<le> w"
  shows "r = map (\<lambda>i. (tm ! i,
                 percentile (take (min (length accel) (i + nat w) - (i - nat w))
                               (drop (i - nat w) accel)) q)) ns
         \<and> (\<forall>i \<in> set ns. i < length tm)"
  using assms(1)
proof (induction ns arbitrary: r)
  case Nil
  then show ?case by simp
next
  case (Cons n ns)
  let ?v = "percentile (py_slice accel (max 0 (int n - w)) (min (int (length accel)) (int n + w))) q"
  from Cons.prems obtain t rest where t: "py_index tm (int n) = Inr t"
    and rest: "get_peaks tm accel w ns q = Inr rest"
    and r: "r = (t, ?v) # rest"
    by (auto simp add: Let_def split: sum.splits)
  from py_index_nat [OF t] have tn: "n < length tm" "t = tm ! n" by simp_all
  from Cons.IH [OF rest] r tn py_slice_window [OF assms(2), of accel n]
  show ?case by simp
qed

lemma argrelextrema_order: "argrelextrema data cmp order = Inr is \<Longrightarrow> 1 \<le> order"
  by (simp add: argrelextrema_def split: if_splits)

text \<open>Every window \<open>get_peaks\<close> hands to \<open>percentile\<close> holds the candidate itself.\<close>

lemma argrelextrema_indices:
  "argrelextrema data cmp order = Inr is \<Longrightarrow> \<forall>i \<in> set is. i < length data"
  by (auto simp add: argrelextrema_def split: if_splits)

lemma peak_window_nonempty:
  assumes "1 \<le> w" and "n < length accel"
  shows "py_slice accel (max 0 (int n - w)) (min (int (length accel)) (int n + w)) \<noteq> []"
proof -
  have w0: "0 \<le> w" using assms(1) by simp
  have "0 < min (length accel) (n + nat w) - (n - nat w)" using assms by auto
  moreover have "0 < length accel - (n - nat w)" using assms(2) by auto
  ultimately have "0 < length (take (min (length accel) (n + nat w) - (n - nat w))
                               (drop (n - nat w) accel))"
    by simp
  then show ?thesis unfolding py_slice_window [OF w0] by auto
qed

text \<open>
  C6, as amended. When \<open>find_acceleration_peaks\<close> returns, with the point width
  \<open>w = 3 \<cdot> int(sigma / \<Delta>t)\<close> (the quotient truncated, \<open>\<Delta>t\<close> the first interval of
  \<open>time\<close>): the maxima are, in index order, one pair per candidate index \<open>i\<close> of the
  order-\<open>w\<close> strict local maximum test, made of the candidate's own timestamp
  \<open>time[i]\<close> and the 95th percentile of the acceleration over the positions
  \<open>max(0, i - w) \<le> k < min(n, i + w)\<close>; the minima likewise with the strict local minimum
  test and the 5th percentile.
\<close>

theorem peaks_percentile_of_window:
  assumes "find_acceleration_peaks s sigma = Inr pk"
    and "t_width = 3 * trunc_div sigma (time s ! 1 - time s ! 0)"
  shows "\<exists>accel max_indices min_indices.
           acceleration s = Inr accel
         \<and> argrelextrema accel (\<lambda>a b. b < a) t_width = Inr max_indices
         \<and> argrelextrema accel (\<lambda>a b. a < b) t_width = Inr min_indices
         \<and> maxima pk = map (\<lambda>i. (time s ! i,
                 percentile (take (min (length accel) (i + nat t_width) - (i - nat t_width))
                               (drop (i - nat t_width) accel)) 95)) max_indices
         \<and> minima pk = map (\<lambda>i. (time s ! i,
                 percentile (take (min (length accel) (i + nat t_width) - (i - nat t_width))
                               (drop (i - nat t_width) accel)) 5)) min_indices"
proof -
  from assms(1) obtain t1 t0 where t1: "py_index (time s) 1 = Inr t1" and t0: "py_index (time s) 0 = Inr t0"
    by (auto simp add: find_acceleration_peaks_def split: sum.splits)
  from py_index_nat [of "time s" 1 t1] t1 have t1v: "t1 = time s ! 1" by simp
  from py_index_nat [of "time s" 0 t0] t0 have t0v: "t0 = time s ! 0" by simp
  have w: "t_width = 3 * trunc_div sigma (t1 - t0)" using assms(2) t1v t0v by simp
  from assms(1) t1 t0 w obtain accel max_indices min_indices mx mn where
    acc: "acceleration s = Inr accel"
    and mxi: "argrelextrema accel (\<lambda>a b. b < a) t_width = Inr max_indices"
    and mni: "argrelextrema accel (\<lambda>a b. a < b) t_width = Inr min_indices"
    and mx: "get_peaks (time s) accel t_width max_indices 95 = Inr mx"
    and mn: "get_peaks (time s) accel t_width min_indices 5 = Inr mn"
    and pk: "pk = \<lparr>minima = mn, maxima = mx\<rparr>"
    by (auto simp add: find_acceleration_peaks_def Let_def split: sum.splits if_splits)
  have w0: "0 \<le> t_width" using argrelextrema_order [OF mxi] by simp
  from get_peaks_map [OF mx w0] get_peaks_map [OF mn w0] acc mxi mni pk
  show ?thesis by simp
qed


theorem peaks_percentile_of_window_witness:
  "find_acceleration_peaks
     \<lparr>time = [0, 3, 6, 9, 12, 15, 18, 21, 24, 27], capacity = [0, 0, 0, 0, 0, 1, 2, 3, 4, 5]\<rparr> 5
     = Inr \<lparr>minima = [], maxima = [(12, 3 / 4)]\<rparr>
   \<and> maxima \<lparr>minima = [], maxima = [(12, 3 / 4)]\<rparr>
     = [(12, percentile (take (min 10 (4 + 3) - (4 - 3)) (drop (4 - 3) [0, 0, 0, 0, 1, 0, 0, 0, 0, 0])) 95)]"
proof -
  let ?s = "\<lparr>time = [0, 3, 6, 9, 12, 15, 18, 21, 24, 27], capacity = [0, 0, 0, 0, 0, 1, 2, 3, 4, 5]\<rparr>"
  let ?pk = "\<lparr>minima = [], maxima = [(12 :: int, 3 / 4 :: real)]\<rparr>"
  let ?acc = "[0, 0, 0, 0, 1, 0, 0, 0, 0, 0] :: real list"
  have run: "find_acceleration_peaks ?s 5 = Inr ?pk" by code_simp
  have w: "3 = 3 * trunc_div 5 (time ?s ! 1 - time ?s ! 0)" by code_simp
  have acc: "acceleration ?s = Inr ?acc" by code_simp
  have cand: "argrelextrema ?acc (\<lambda>a b. b < a) 3 = Inr [4]" by code_simp
  from peaks_percentile_of_window [OF run w] acc cand
  have "maxima ?pk = map (\<lambda>i. (time ?s ! i,
                 percentile (take (min (length ?acc) (i + nat 3) - (i - nat 3))
                               (drop (i - nat 3) ?acc)) 95)) [4]"
    by auto
  then have "maxima ?pk
     = [(12, percentile (take (min 10 (4 + 3) - (4 - 3)) (drop (4 - 3) ?acc)) 95)]"
    by simp
  with run show ?thesis by blast
qed

text \<open>
  C6 as stated fails: with \<open>sigma = 5\<close> and \<open>\<Delta>t = 3\<close> the code's width is
  \<open>3 \<cdot> int(5/3) = 3\<close>, not \<open>3 \<cdot> round(5/3) = 6\<close>. The peak at index 4 is reported
  with the value \<open>3/4\<close>; the 95th percentile over the window of width 6 is \<open>11/20\<close>.
\<close>

theorem peaks_width_truncates_not_rounds:
  "find_acceleration_peaks
     \<lparr>time = [0, 3, 6, 9, 12, 15, 18, 21, 24, 27], capacity = [0, 0, 0, 0, 0, 1, 2, 3, 4, 5]\<rparr> 5
     = Inr \<lparr>minima = [], maxima = [(12, 3 / 4)]\<rparr>
   \<and> acceleration
       \<lparr>time = [0, 3, 6, 9, 12, 15, 18, 21, 24, 27], capacity = [0, 0, 0, 0, 0, 1, 2, 3, 4, 5]\<rparr>
     = Inr [0, 0, 0, 0, 1, 0, 0, 0, 0, 0]
   \<and> percentile (py_slice [0, 0, 0, 0, 1, 0, 0, 0, 0, 0]
                   (max 0 (4 - 3 * round (5 / 3 :: real)))
                   (min 10 (4 + 3 * round (5 / 3 :: real)))) 95 = 11 / 20"
  by code_simp

section \<open>Smoothing\<close>

lemma length_gaussian_kernel: "length (gaussian_kernel r delta sigma) = nat (2 * r + 1)"
  by (simp add: gaussian_kernel_def Let_def)

lemma length_convolve_full: "length (convolve_full a v) = length a + length v - 1"
  by (simp add: convolve_full_def)


lemma convolve_same_length:
  assumes "a \<noteq> []" "v \<noteq> []"
  shows "\<exists>c. convolve_same a v = Inr c \<and> length c = max (length a) (length v)"
proof -
  have key: "n + (m - 1) div 2 \<le> n + m - 1" if "0 < m" for n m :: nat
    using that by arith
  have len: "length (take (length x) (drop ((length y - 1) div 2) (convolve_full x y))) = length x"
    if "y \<noteq> []" for x y
    using key [of "length y" "length x"] that by (simp add: length_convolve_full)
  show ?thesis
  proof (cases "length a < length v")
    case True
    then have "convolve_same a v = Inr (take (length v) (drop ((length a - 1) div 2) (convolve_full v a)))"
      using assms by (simp add: convolve_same_def Let_def)
    moreover have "max (length a) (length v) = length v" using True by simp
    ultimately show ?thesis using len [OF assms(1), of v] by simp
  next
    case False
    then have "convolve_same a v = Inr (take (length a) (drop ((length v - 1) div 2) (convolve_full a v)))"
      using assms by (simp add: convolve_same_def Let_def)
    moreover have "max (length a) (length v) = length a" using False by simp
    ultimately show ?thesis using len [OF assms(2), of a] by simp
  qed
qed

lemma interp_cases:
  "interp x xp fp = (if xp = [] \<or> length fp \<noteq> length xp then Inl ValueError
                     else Inr (map (\<lambda>v. interp_at v xp fp) x))"
  by (simp add: interp_def)

lemma py_slice_trim_zero: "py_slice xs 0 (- 0) = []"
  by (simp add: py_slice_def slice_index_def)

lemma py_slice_trim:
  assumes "1 \<le> r"
  shows "py_slice xs r (- r) = take (length xs - 2 * nat r) (drop (nat r) xs)"
proof -
  have lo: "slice_index (length xs) r = min (length xs) (nat r)"
    using assms by (simp add: slice_index_def)
  have hi: "slice_index (length xs) (- r) = length xs - nat r"
    using assms by (simp add: slice_index_def nat_diff_distrib')
  show ?thesis
  proof (cases "nat r \<le> length xs")
    case True
    then show ?thesis by (simp add: py_slice_def Let_def lo hi min_absorb2 mult_2)
  next
    case False
    then show ?thesis by (simp add: py_slice_def Let_def lo hi)
  qed
qed

lemma length_py_slice_trim: "1 \<le> r \<Longrightarrow> length (py_slice xs r (- r)) = length xs - 2 * nat r"
  by (simp add: py_slice_trim)



lemma smooth_unfold:
  assumes "delta \<noteq> 0" and "time s \<noteq> []" and "length (capacity s) = length (time s)"
    and "1 \<le> trunc_div (end_t - start) delta" and "0 \<le> trunc_div (3 * sigma) delta"
  shows "\<exists>sm. length sm = max (nat (trunc_div (end_t - start) delta))
                           (nat (2 * trunc_div (3 * sigma) delta + 1))
           \<and> smooth s start end_t delta sigma =
               Inr \<lparr>time = py_slice (map (\<lambda>i. start + int i * delta)
                                       [0 ..< nat (trunc_div (end_t - start) delta)])
                             (trunc_div (3 * sigma) delta) (- trunc_div (3 * sigma) delta),
                    capacity = map (\<lambda>c. if c < 0 then 0 else c)
                                 (py_slice sm (trunc_div (3 * sigma) delta)
                                    (- trunc_div (3 * sigma) delta))\<rparr>"
proof -
  define N where "N = trunc_div (end_t - start) delta"
  define r where "r = trunc_div (3 * sigma) delta"
  define grid where "grid = map (\<lambda>i. start + int i * delta) [0 ..< nat N]"
  define ic where "ic = map (\<lambda>v. interp_at v (map real_of_int (time s)) (capacity s))
                          (map real_of_int grid)"
  have N1: "1 \<le> N" and r0: "0 \<le> r" using assms(4,5) by (simp_all add: N_def r_def)
  have it: "interp (map real_of_int grid) (map real_of_int (time s)) (capacity s) = Inr ic"
    using assms(2,3) by (simp add: interp_cases ic_def)
  have icne: "ic \<noteq> []" using N1 by (simp add: ic_def grid_def)
  have kne: "gaussian_kernel r delta sigma \<noteq> []"
  proof -
    have "length (gaussian_kernel r delta sigma) = nat (2 * r + 1)" by (rule length_gaussian_kernel)
    moreover have "0 < nat (2 * r + 1)" using r0 by simp
    ultimately show ?thesis by auto
  qed
  from convolve_same_length [OF icne kne] obtain sm where
    cs: "convolve_same ic (gaussian_kernel r delta sigma) = Inr sm"
    and lsm: "length sm = max (length ic) (length (gaussian_kernel r delta sigma))"
    by blast
  have lsm': "length sm = max (nat N) (nat (2 * r + 1))"
    using lsm by (simp add: ic_def grid_def length_gaussian_kernel)
  have "smooth s start end_t delta sigma =
          Inr \<lparr>time = py_slice grid r (- r),
               capacity = map (\<lambda>c. if c < 0 then 0 else c) (py_slice sm r (- r))\<rparr>"
    using assms(1) it cs unfolding grid_def N_def r_def
    by (simp add: smooth_def Let_def)
  with lsm' show ?thesis unfolding N_def r_def grid_def by blast
qed


lemma smooth_zero_radius:
  assumes "delta \<noteq> 0" and "time s \<noteq> []" and "length (capacity s) = length (time s)"
    and "1 \<le> trunc_div (end_t - start) delta" and "trunc_div (3 * sigma) delta = 0"
  shows "smooth s start end_t delta sigma = Inr \<lparr>time = [], capacity = []\<rparr>"
proof -
  have r0: "0 \<le> trunc_div (3 * sigma) delta" using assms(5) by simp
  from smooth_unfold [OF assms(1-4) r0] show ?thesis
    by (auto simp add: assms(5) py_slice_trim_zero [simplified])
qed

lemma trimmed_grid:
  assumes "1 \<le> r"
  shows "py_slice (map (\<lambda>i. start + int i * delta) [0 ..< n]) r (- r)
         = map (\<lambda>i. start + (r + int i) * delta) [0 ..< n - 2 * nat r]"
proof -
  let ?f = "\<lambda>i. start + int i * delta"
  let ?k = "n - 2 * nat r"
  have "py_slice (map ?f [0 ..< n]) r (- r) = take ?k (drop (nat r) (map ?f [0 ..< n]))"
    using assms by (simp add: py_slice_trim)
  also have "\<dots> = map ?f (take ?k [nat r ..< n])"
    by (simp add: drop_map take_map)
  also have "take ?k [nat r ..< n] = [nat r ..< nat r + ?k]"
  proof (cases "2 * nat r \<le> n")
    case True
    then show ?thesis by (intro take_upt) simp
  next
    case False
    then show ?thesis by simp
  qed
  also have "[nat r ..< nat r + ?k] = map (\<lambda>i. i + nat r) [0 ..< ?k]"
    by (simp add: map_add_upt add.commute)
  also have "map ?f (map (\<lambda>i. i + nat r) [0 ..< ?k]) = map (\<lambda>i. start + (r + int i) * delta) [0 ..< ?k]"
    using assms by (simp add: add.commute)
  finally show ?thesis .
qed

lemma smooth_regular:
  assumes "delta \<noteq> 0" and "time s \<noteq> []" and "length (capacity s) = length (time s)"
    and "N = trunc_div (end_t - start) delta" and "r = trunc_div (3 * sigma) delta"
    and "1 \<le> r" and "2 * r < N"
  shows "\<exists>s'. smooth s start end_t delta sigma = Inr s'
           \<and> time s' = map (\<lambda>i. start + (r + int i) * delta) [0 ..< nat (N - 2 * r)]
           \<and> length (capacity s') = nat (N - 2 * r)
           \<and> (\<forall>c \<in> set (capacity s'). 0 \<le> c)"
proof -
  have N1: "1 \<le> trunc_div (end_t - start) delta" and r0: "0 \<le> trunc_div (3 * sigma) delta"
    using assms(4-7) by simp_all
  from smooth_unfold [OF assms(1-3) N1 r0] assms(4,5) obtain sm where
    lsm: "length sm = max (nat N) (nat (2 * r + 1))"
    and run: "smooth s start end_t delta sigma =
               Inr \<lparr>time = py_slice (map (\<lambda>i. start + int i * delta) [0 ..< nat N]) r (- r),
                    capacity = map (\<lambda>c. if c < 0 then 0 else c) (py_slice sm r (- r))\<rparr>"
    by auto
  have lsm': "length sm = nat N" using lsm assms(6,7) by simp
  have k: "nat N - 2 * nat r = nat (N - 2 * r)" using assms(6,7) by simp
  have t: "py_slice (map (\<lambda>i. start + int i * delta) [0 ..< nat N]) r (- r)
           = map (\<lambda>i. start + (r + int i) * delta) [0 ..< nat (N - 2 * r)]"
    using trimmed_grid [OF assms(6), of start delta "nat N"] k by simp
  have c: "length (py_slice sm r (- r)) = nat (N - 2 * r)"
    using length_py_slice_trim [OF assms(6), of sm] lsm' k by simp
  have nn: "\<forall>c \<in> set (map (\<lambda>c. if c < 0 then 0 else c) (py_slice sm r (- r))). (0::real) \<le> c"
    by auto
  from run t c nn show ?thesis by simp
qed

lemma smooth_short_grid:
  assumes "delta \<noteq> 0" and "time s \<noteq> []" and "length (capacity s) = length (time s)"
    and "N = trunc_div (end_t - start) delta" and "r = trunc_div (3 * sigma) delta"
    and "1 \<le> N" and "N \<le> 2 * r"
  shows "\<exists>s'. smooth s start end_t delta sigma = Inr s'
           \<and> time s' = [] \<and> length (capacity s') = 1"
proof -
  have N1: "1 \<le> trunc_div (end_t - start) delta" and r0: "0 \<le> trunc_div (3 * sigma) delta"
    using assms(4-7) by simp_all
  have r1: "1 \<le> r" using assms(6,7) by simp
  from smooth_unfold [OF assms(1-3) N1 r0] assms(4,5) obtain sm where
    lsm: "length sm = max (nat N) (nat (2 * r + 1))"
    and run: "smooth s start end_t delta sigma =
               Inr \<lparr>time = py_slice (map (\<lambda>i. start + int i * delta) [0 ..< nat N]) r (- r),
                    capacity = map (\<lambda>c. if c < 0 then 0 else c) (py_slice sm r (- r))\<rparr>"
    by auto
  have lsm': "length sm = 2 * nat r + 1" using lsm assms(6,7) r1 by (simp add: nat_add_distrib nat_mult_distrib)
  have k: "nat N - 2 * nat r = 0" using assms(6,7) by simp
  have t: "py_slice (map (\<lambda>i. start + int i * delta) [0 ..< nat N]) r (- r) = []"
    using trimmed_grid [OF r1, of start delta "nat N"] k by simp
  have c: "length (py_slice sm r (- r)) = 1"
    using length_py_slice_trim [OF r1, of sm] lsm' by simp
  from run t c show ?thesis by simp
qed


lemma smooth_capacity_nonneg:
  assumes "smooth s start end_t delta sigma = Inr s'"
  shows "\<forall>c \<in> set (capacity s'). 0 \<le> c"
proof -
  from assms obtain cs where "capacity s' = map (\<lambda>c. if c < 0 then 0 else c) cs"
    by (auto simp add: smooth_def Let_def split: if_splits sum.splits)
  then show ?thesis by auto
qed

text \<open>
  C1. The specification gives the smoothed series the length \<open>N - 2r\<close>, and two empty
  arrays when \<open>N \<le> 2r\<close>. For a radius of at least 1 and \<open>N > 2r\<close> that is what the
  code does (\<open>smooth_regular\<close>). With a sigma below a third of delta the radius is 0, and
  the trimming slice \<open>[r:-r]\<close> is then \<open>[0:0]\<close>: on a grid of \<open>N = 5\<close> points both
  arrays come out empty instead of having 5 entries. And on a grid of \<open>N = 3\<close> points with
  radius 2 the capacity array is not empty: it keeps one value.
\<close>

theorem smooth_zero_radius_trims_everything:
  "trunc_div (50 - 0) 10 = 5 \<and> trunc_div (3 * 1) 10 = 0
   \<and> smooth \<lparr>time = [0, 50], capacity = [0, 5]\<rparr> 0 50 10 1 = Inr \<lparr>time = [], capacity = []\<rparr>
   \<and> trunc_div (30 - 0) 10 = 3 \<and> trunc_div (3 * 7) 10 = 2
   \<and> map_sum id (\<lambda>s'. (length (time s'), length (capacity s')))
         (smooth \<lparr>time = [0, 50], capacity = [0, 5]\<rparr> 0 30 10 7) = Inr (0, 1)"
proof -
  let ?s = "\<lparr>time = [0, 50], capacity = [0, 5]\<rparr>"
  have N: "trunc_div (50 - 0) 10 = 5" and r: "trunc_div (3 * 1) 10 = 0" by code_simp+
  have N': "3 = trunc_div (30 - 0) 10" and r': "2 = trunc_div (3 * 7) 10" by code_simp+
  have a: "smooth ?s 0 50 10 1 = Inr \<lparr>time = [], capacity = []\<rparr>"
    by (rule smooth_zero_radius) (simp_all add: trunc_div_def)
  have "\<exists>s'. smooth ?s 0 30 10 7 = Inr s' \<and> time s' = [] \<and> length (capacity s') = 1"
    by (rule smooth_short_grid [OF _ _ _ N' r']) simp_all
  then have b: "map_sum id (\<lambda>s'. (length (time s'), length (capacity s')))
         (smooth ?s 0 30 10 7) = Inr (0, 1)"
    by auto
  from N r a N' [symmetric] r' [symmetric] b show ?thesis by blast
qed

text \<open>
  C2. The specification has \<open>smooth\<close> preserve \<open>len(time) == len(capacity)\<close>. On a grid no longer
  than the kernel (\<open>1 \<le> N \<le> 2r\<close>) the convolution in mode "same" is as long as the
  kernel, \<open>2r + 1\<close>, so trimming leaves one capacity value while the trimmed time array
  is empty: here \<open>N = 2\<close> and \<open>r = 3\<close>.
\<close>

theorem smooth_short_grid_misaligned:
  "map_sum id (\<lambda>s'. (length (time s'), length (capacity s')))
     (smooth \<lparr>time = [0, 100], capacity = [0, 50]\<rparr> 0 20 10 10) = Inr (0, 1)"
proof -
  let ?s = "\<lparr>time = [0, 100], capacity = [0, 50]\<rparr>"
  have N: "2 = trunc_div (20 - 0) 10" and r: "3 = trunc_div (3 * 10) 10" by code_simp+
  have "\<exists>s'. smooth ?s 0 20 10 10 = Inr s' \<and> time s' = [] \<and> length (capacity s') = 1"
    by (rule smooth_short_grid [OF _ _ _ N r]) simp_all
  then show ?thesis by auto
qed




end
